theory Spec2Isabelle
  imports Complex_Main "HOL-Library.List_Lexorder" "HOL-Library.Sublist"
begin

section \<open>Strings\<close>

text \<open>
  A Python \<open>str\<close> is a sequence of Unicode code points; it is modelled as a list of
  natural numbers, one per code point. String literals of the source are ASCII and are
  written with \<open>ustr\<close>.
\<close>

type_synonym ustr = "nat list"

definition ustr :: "string \<Rightarrow> ustr" where
  "ustr s = map of_char s"

text \<open>ASCII case mapping: \<open>A\<close>..\<open>Z\<close> is 65..90, \<open>a\<close>..\<open>z\<close> is 97..122.\<close>

definition ascii_lower :: "nat \<Rightarrow> nat" where
  "ascii_lower c = (if 65 \<le> c \<and> c \<le> 90 then c + 32 else c)"

definition ascii_upper :: "nat \<Rightarrow> nat" where
  "ascii_upper c = (if 97 \<le> c \<and> c \<le> 122 then c - 32 else c)"

text \<open>
  \<open>str.lower()\<close>. An ASCII code point is mapped by the ASCII rule. The lowercase
  expansion of a code point from 128 on comes from the Unicode database of the Python
  runtime, which is not part of the repository: it is the parameter \<open>U\<close>, where
  \<open>U s i\<close> is the expansion (one to three code points, and for capital sigma dependent
  on the surrounding text) of the code point at index \<open>i\<close> of \<open>s\<close>.
\<close>

definition lower :: "(ustr \<Rightarrow> nat \<Rightarrow> ustr) \<Rightarrow> ustr \<Rightarrow> ustr" where
  "lower U s =
     concat (map (\<lambda>i. if s ! i < 128 then [ascii_lower (s ! i)] else U s i) [0..<length s])"

text \<open>
  Whitespace as \<open>\s\<close> of \<open>re\<close> on \<open>str\<close> patterns and \<open>str.strip()\<close> see it
  (both use the interpreter's \<open>Py_UNICODE_ISSPACE\<close>).
\<close>

definition is_space :: "nat \<Rightarrow> bool" where
  "is_space c \<longleftrightarrow>
     (9 \<le> c \<and> c \<le> 13) \<or> (28 \<le> c \<and> c \<le> 32) \<or> c = 133 \<or> c = 160 \<or> c = 5760 \<or>
     (8192 \<le> c \<and> c \<le> 8202) \<or> c = 8232 \<or> c = 8233 \<or> c = 8239 \<or> c = 8287 \<or> c = 12288"

text \<open>The character class \<open>[a-z0-9]\<close>.\<close>

definition is_az09 :: "nat \<Rightarrow> bool" where
  "is_az09 c \<longleftrightarrow> (97 \<le> c \<and> c \<le> 122) \<or> (48 \<le> c \<and> c \<le> 57)"

text \<open>\<open>str.strip()\<close> without argument.\<close>

definition strip :: "ustr \<Rightarrow> ustr" where
  "strip s = rev (dropWhile is_space (rev (dropWhile is_space s)))"

text \<open>\<open>sep.join(xs)\<close>.\<close>

fun join :: "ustr \<Rightarrow> ustr list \<Rightarrow> ustr" where
  "join sep [] = []"
| "join sep [x] = x"
| "join sep (x # y # ys) = x @ sep @ join sep (y # ys)"

text \<open>\<open>a in b\<close> on strings: \<open>a\<close> occurs in \<open>b\<close> as a contiguous substring.\<close>

fun is_substring :: "ustr \<Rightarrow> ustr \<Rightarrow> bool" where
  "is_substring a [] = (a = [])"
| "is_substring a (c # cs) = (prefix a (c # cs) \<or> is_substring a cs)"

section \<open>Text normalization\<close>

text \<open>\<open>re.sub(r"[^a-z0-9\s]", " ", text)\<close>: each code point outside the class becomes a space.\<close>

definition sub_other :: "ustr \<Rightarrow> ustr" where
  "sub_other s = map (\<lambda>c. if is_az09 c \<or> is_space c then c else 32) s"

text \<open>\<open>re.sub(r"\s+", " ", text)\<close>: each maximal run of whitespace becomes one space.\<close>

function sub_spaces :: "ustr \<Rightarrow> ustr" where
  "sub_spaces [] = []"
| "sub_spaces (c # cs) =
     (if is_space c then 32 # sub_spaces (dropWhile is_space cs) else c # sub_spaces cs)"
  by pat_completeness auto
termination
  by (relation "measure length") (auto simp: length_dropWhile_le less_Suc_eq_le)

definition normalize_text :: "(ustr \<Rightarrow> nat \<Rightarrow> ustr) \<Rightarrow> ustr \<Rightarrow> ustr" where
  "normalize_text U text = strip (sub_spaces (sub_other (lower U text)))"

text \<open>
  Predicates used to state what \<open>normalize\<close> returns: two neighbouring code points are
  not both whitespace; a text in normal form has only \<open>[a-z0-9 ]\<close>, no space at either
  end and no two spaces in a row.
\<close>

definition adj_ok :: "nat \<Rightarrow> nat \<Rightarrow> bool" where
  "adj_ok a b \<longleftrightarrow> \<not> (is_space a \<and> is_space b)"

definition normal_form :: "ustr \<Rightarrow> bool" where
  "normal_form t \<longleftrightarrow>
     (\<forall>c\<in>set t. is_az09 c \<or> c = 32) \<and>
     (t = [] \<or> (hd t \<noteq> 32 \<and> last t \<noteq> 32)) \<and>
     successively adj_ok t"

text \<open>
  A lowercase table for the examples: it leaves every code point from 128 on as it is.
\<close>

definition keep_nonascii :: "ustr \<Rightarrow> nat \<Rightarrow> ustr" where
  "keep_nonascii s i = [s ! i]"

section \<open>Dataset\<close>

text \<open>The dictionary that \<open>load_dataset_csv\<close> appends for each record of a source.\<close>

record dataset_row =
  brand :: ustr
  generic :: ustr
  is_banned :: bool
  batch :: ustr

text \<open>
  A record as \<open>csv.DictReader\<close> yields it: a dictionary from the column names of the
  header row to the fields of the line. A line with fewer fields than the header has the
  missing columns filled with \<open>restval\<close>, which is \<open>None\<close> here since the reader is
  built with its defaults; a column that the header does not have is no key at all.
\<close>

datatype cell = Text ustr | NoneVal

type_synonym raw_record = "ustr \<rightharpoonup> cell"

datatype error = AttributeError | OSError

text \<open>\<open>r.get(k, d)\<close>.\<close>

definition dict_get :: "raw_record \<Rightarrow> ustr \<Rightarrow> cell \<Rightarrow> cell" where
  "dict_get r k d = (case r k of None \<Rightarrow> d | Some v \<Rightarrow> v)"

text \<open>\<open>v.strip()\<close>: \<open>None\<close> has no such method.\<close>

definition cell_strip :: "cell \<Rightarrow> error + ustr" where
  "cell_strip v = (case v of Text s \<Rightarrow> Inr (strip s) | NoneVal \<Rightarrow> Inl AttributeError)"

text \<open>\<open>str(v)\<close>.\<close>

definition py_str :: "cell \<Rightarrow> ustr" where
  "py_str v = (case v of Text s \<Rightarrow> s | NoneVal \<Rightarrow> ustr ''None'')"

text \<open>
  The dictionary display in the loop body of \<open>load_dataset_csv\<close>, its four values
  evaluated in the order written.
\<close>

definition shape_row :: "(ustr \<Rightarrow> nat \<Rightarrow> ustr) \<Rightarrow> raw_record \<Rightarrow> error + dataset_row" where
  "shape_row U r =
     (case cell_strip (dict_get r (ustr ''brand'') (Text [])) of
        Inl e \<Rightarrow> Inl e
      | Inr b \<Rightarrow>
     (case cell_strip (dict_get r (ustr ''generic'') (Text [])) of
        Inl e \<Rightarrow> Inl e
      | Inr g \<Rightarrow>
     (let ib = (lower U (py_str (dict_get r (ustr ''is_banned'') (Text []))) = ustr ''true'')
      in case cell_strip (dict_get r (ustr ''batch'') (Text [])) of
        Inl e \<Rightarrow> Inl e
      | Inr bt \<Rightarrow> Inr \<lparr>brand = b, generic = g, is_banned = ib, batch = bt\<rparr>)))"

text \<open>
  The storage the loader reads: a path that does not exist has no entry; a path that
  exists either opens and parses into its records, or fails in \<open>open\<close> or while it is
  read (a directory, no read permission, bytes that are not UTF-8).
\<close>

datatype source = Unreadable | Csv "raw_record list"

type_synonym filesystem = "ustr \<rightharpoonup> source"

definition path_exists :: "filesystem \<Rightarrow> ustr \<Rightarrow> bool" where
  "path_exists fs path \<longleftrightarrow> fs path \<noteq> None"

text \<open>The inner loop: \<open>for r in reader: rows.append({...})\<close>.\<close>

fun append_rows ::
  "(ustr \<Rightarrow> nat \<Rightarrow> ustr) \<Rightarrow> dataset_row list \<Rightarrow> raw_record list \<Rightarrow> error + dataset_row list"
where
  "append_rows U rows [] = Inr rows"
| "append_rows U rows (r # rs) =
     (case shape_row U r of
        Inl e \<Rightarrow> Inl e
      | Inr x \<Rightarrow> append_rows U (rows @ [x]) rs)"

text \<open>
  The outer loop over \<open>csv_paths\<close>; an element is \<open>None\<close> or a string, and
  \<open>not p\<close> holds of \<open>None\<close> and of the empty string.
\<close>

fun load_loop ::
  "(ustr \<Rightarrow> nat \<Rightarrow> ustr) \<Rightarrow> filesystem \<Rightarrow> dataset_row list \<Rightarrow> ustr option list
     \<Rightarrow> error + dataset_row list"
where
  "load_loop U fs rows [] = Inr rows"
| "load_loop U fs rows (None # ps) = load_loop U fs rows ps"
| "load_loop U fs rows (Some path # ps) =
     (if path = [] \<or> \<not> path_exists fs path then load_loop U fs rows ps
      else case fs path of
             Some (Csv recs) \<Rightarrow>
               (case append_rows U rows recs of
                  Inl e \<Rightarrow> Inl e
                | Inr rows' \<Rightarrow> load_loop U fs rows' ps)
           | _ \<Rightarrow> Inl OSError)"

definition load_dataset_csv ::
  "(ustr \<Rightarrow> nat \<Rightarrow> ustr) \<Rightarrow> filesystem \<Rightarrow> ustr option list \<Rightarrow> error + dataset_row list"
where
  "load_dataset_csv U fs csv_paths = load_loop U fs [] csv_paths"

text \<open>
  What the loader leaves out: \<open>not p or not os.path.exists(p)\<close>.
\<close>

definition skipped :: "filesystem \<Rightarrow> ustr option \<Rightarrow> bool" where
  "skipped fs p = (case p of None \<Rightarrow> True | Some path \<Rightarrow> path = [] \<or> \<not> path_exists fs path)"

section \<open>Core matcher\<close>

definition BANNED_KEYWORDS :: "ustr list" where
  "BANNED_KEYWORDS = [ustr ''nimesulide'']"

definition FUZZY_THRESHOLD :: real where
  "FUZZY_THRESHOLD = 85"

text \<open>
  \<open>str.capitalize()\<close>, applied by the matcher to the keywords only, which are ASCII
  literals: the first code point in upper case, the others in lower case.
\<close>

fun capitalize :: "ustr \<Rightarrow> ustr" where
  "capitalize [] = []"
| "capitalize (c # cs) = ascii_upper c # map ascii_lower cs"

text \<open>
  The loop over \<open>dataset_rows\<close>, with the set \<open>found_banned\<close> passed along.
  \<open>fuzz.partial_ratio\<close> belongs to the rapidfuzz library and is the parameter \<open>pr\<close>:
  any function from two strings to a number.
\<close>

fun scan_rows ::
  "(ustr \<Rightarrow> nat \<Rightarrow> ustr) \<Rightarrow> (ustr \<Rightarrow> ustr \<Rightarrow> real) \<Rightarrow> ustr \<Rightarrow> ustr set \<Rightarrow> dataset_row list
     \<Rightarrow> ustr set"
where
  "scan_rows U pr invoice_text found_banned [] = found_banned"
| "scan_rows U pr invoice_text found_banned (r # rs) =
     (if \<not> is_banned r then scan_rows U pr invoice_text found_banned rs
      else let g = normalize_text U (generic r) in
        if g = [] then scan_rows U pr invoice_text found_banned rs
        else if is_substring g invoice_text
          then scan_rows U pr invoice_text (insert (generic r) found_banned) rs
        else let score = pr g invoice_text in
          if score \<ge> FUZZY_THRESHOLD
          then scan_rows U pr invoice_text (insert (generic r) found_banned) rs
          else scan_rows U pr invoice_text found_banned rs)"

text \<open>The loop over the keywords (the safety net).\<close>

fun scan_keywords :: "ustr \<Rightarrow> ustr set \<Rightarrow> ustr list \<Rightarrow> ustr set" where
  "scan_keywords invoice_text found_banned [] = found_banned"
| "scan_keywords invoice_text found_banned (kw # kws) =
     (if is_substring kw invoice_text
      then scan_keywords invoice_text (insert (capitalize kw) found_banned) kws
      else scan_keywords invoice_text found_banned kws)"

text \<open>
  \<open>sorted\<close> of a set of strings is the list of its elements in increasing order, strings
  being compared code point by code point (the lexicographic order on lists).
\<close>

definition find_banned_drugs_in_invoice ::
  "(ustr \<Rightarrow> nat \<Rightarrow> ustr) \<Rightarrow> (ustr \<Rightarrow> ustr \<Rightarrow> real) \<Rightarrow> ustr list \<Rightarrow> dataset_row list \<Rightarrow> ustr list"
where
  "find_banned_drugs_in_invoice U pr ocr_texts dataset_rows =
     (let invoice_text = normalize_text U (join [10] ocr_texts);
          found_banned = scan_rows U pr invoice_text {} dataset_rows;
          found_banned = scan_keywords invoice_text found_banned BANNED_KEYWORDS
      in sorted_list_of_set found_banned)"

text \<open>
  The condition under which the loop body adds the generic name of a row, and a score
  function that answers the same number for every pair (for the examples).
\<close>

definition row_flagged ::
  "(ustr \<Rightarrow> nat \<Rightarrow> ustr) \<Rightarrow> (ustr \<Rightarrow> ustr \<Rightarrow> real) \<Rightarrow> ustr \<Rightarrow> dataset_row \<Rightarrow> bool"
where
  "row_flagged U pr invoice_text r \<longleftrightarrow>
     is_banned r \<and> normalize_text U (generic r) \<noteq> [] \<and>
     (is_substring (normalize_text U (generic r)) invoice_text \<or>
      pr (normalize_text U (generic r)) invoice_text \<ge> FUZZY_THRESHOLD)"

definition const_score :: "real \<Rightarrow> ustr \<Rightarrow> ustr \<Rightarrow> real" where
  "const_score x a b = x"

text \<open>Two strings are equal without regard to case when their lowercase forms are equal.\<close>

definition caseless_eq :: "(ustr \<Rightarrow> nat \<Rightarrow> ustr) \<Rightarrow> ustr \<Rightarrow> ustr \<Rightarrow> bool" where
  "caseless_eq U a b \<longleftrightarrow> lower U a = lower U b"

text \<open>
  The value that \<open>load_dataset_csv\<close> stores under \<open>is_banned\<close>, and the text of a
  column of a record (empty when the record has no such column).
\<close>

definition parse_is_banned :: "(ustr \<Rightarrow> nat \<Rightarrow> ustr) \<Rightarrow> raw_record \<Rightarrow> bool" where
  "parse_is_banned U r \<longleftrightarrow>
     lower U (py_str (dict_get r (ustr ''is_banned'') (Text []))) = ustr ''true''"

definition field_text :: "raw_record \<Rightarrow> ustr \<Rightarrow> ustr" where
  "field_text r k = (case r k of Some (Text s) \<Rightarrow> s | _ \<Rightarrow> [])"

text \<open>
  Examples: a record of the dataset written by \<open>generate_demo_dataset.py\<close>, where
  \<open>csv.writer\<close> turns the Boolean into \<open>True\<close>; the row it is shaped into; the record
  of a line that ends after its first field, under the header
  \<open>brand,generic,is_banned,batch\<close>; and a storage with one readable dataset and one
  file that cannot be read.
\<close>

definition demo_record :: raw_record where
  "demo_record =
     [ustr ''brand'' \<mapsto> Text (ustr '' Analgin ''), ustr ''generic'' \<mapsto> Text (ustr ''Metamizole''),
      ustr ''strength'' \<mapsto> Text (ustr ''500mg''), ustr ''batch'' \<mapsto> Text (ustr ''AB12CD34''),
      ustr ''is_banned'' \<mapsto> Text (ustr ''True'')]"

definition demo_row :: dataset_row where
  "demo_row = \<lparr>brand = ustr ''Analgin'', generic = ustr ''Metamizole'', is_banned = True,
                batch = ustr ''AB12CD34''\<rparr>"

definition short_record :: raw_record where
  "short_record =
     [ustr ''brand'' \<mapsto> Text (ustr ''Analgin''), ustr ''generic'' \<mapsto> NoneVal,
      ustr ''is_banned'' \<mapsto> NoneVal, ustr ''batch'' \<mapsto> NoneVal]"

definition demo_fs :: filesystem where
  "demo_fs = [ustr ''train.csv'' \<mapsto> Csv [demo_record], ustr ''locked.csv'' \<mapsto> Unreadable]"

text \<open>
  The set that the two loops of the matcher build: the generic names of the flagged rows,
  and the capitalized keyword when the invoice text has it.
\<close>

definition found_set ::
  "(ustr \<Rightarrow> nat \<Rightarrow> ustr) \<Rightarrow> (ustr \<Rightarrow> ustr \<Rightarrow> real) \<Rightarrow> ustr list \<Rightarrow> dataset_row list \<Rightarrow> ustr set"
where
  "found_set U pr ocr_texts dataset_rows =
     generic ` {r \<in> set dataset_rows.
                 row_flagged U pr (normalize_text U (join [10] ocr_texts)) r} \<union>
     (if is_substring (ustr ''nimesulide'') (normalize_text U (join [10] ocr_texts))
      then {ustr ''Nimesulide''} else {})"

section \<open>Properties of the normalizer\<close>

text \<open>On a text of ASCII code points \<open>lower\<close> is the ASCII rule, whatever the table.\<close>


lemma lower_ascii: "\<forall>c\<in>set s. c < 128 \<Longrightarrow> lower U s = map ascii_lower s"
proof -
  assume a: "\<forall>c\<in>set s. c < 128"
  have "map (\<lambda>i. if s ! i < 128 then [ascii_lower (s ! i)] else U s i) [0..<length s]
        = map (\<lambda>i. [ascii_lower (s ! i)]) [0..<length s]"
    using a by (intro map_cong) auto
  also have "concat \<dots> = map (\<lambda>i. ascii_lower (s ! i)) [0..<length s]"
    by simp
  also have "\<dots> = map ascii_lower (map ((!) s) [0..<length s])"
    by (simp add: comp_def)
  also have "\<dots> = map ascii_lower s"
    by (simp only: map_nth)
  finally show ?thesis by (simp add: lower_def)
qed

lemma is_space_32: "is_space 32"
  by (simp add: is_space_def)

lemma az09_not_space: "is_az09 c \<Longrightarrow> \<not> is_space c"
  by (auto simp: is_az09_def is_space_def)

lemma set_sub_other: "c \<in> set (sub_other s) \<Longrightarrow> is_az09 c \<or> is_space c"
  by (auto simp: sub_other_def is_space_32)

lemma set_sub_spaces: "c \<in> set (sub_spaces s) \<Longrightarrow> c = 32 \<or> (c \<in> set s \<and> \<not> is_space c)"
proof (induction s rule: sub_spaces.induct)
  case 1
  then show ?case by simp
next
  case (2 d ds)
  show ?case
  proof (cases "is_space d")
    case True
    with 2 show ?thesis by (auto dest: set_dropWhileD)
  next
    case False
    with 2 show ?thesis by auto
  qed
qed

lemma hd_sub_spaces:
  "s \<noteq> [] \<Longrightarrow> \<not> is_space (hd s) \<Longrightarrow> sub_spaces s \<noteq> [] \<and> hd (sub_spaces s) = hd s"
  by (cases s) auto

lemma succ_sub_spaces: "successively adj_ok (sub_spaces s)"
proof (induction s rule: sub_spaces.induct)
  case 1
  then show ?case by simp
next
  case (2 d ds)
  show ?case
  proof (cases "is_space d")
    case True
    let ?r = "dropWhile is_space ds"
    have h: "sub_spaces ?r = [] \<or> \<not> is_space (hd (sub_spaces ?r))"
    proof (cases "?r = []")
      case True
      then have "sub_spaces ?r = []" by (simp only: sub_spaces.simps)
      then show ?thesis by blast
    next
      case False
      then have "\<not> is_space (hd ?r)" by (rule hd_dropWhile)
      with False show ?thesis using hd_sub_spaces [of ?r] by simp
    qed
    from True 2 have ih: "successively adj_ok (sub_spaces ?r)" by blast
    from True have eq: "sub_spaces (d # ds) = 32 # sub_spaces ?r" by simp
    show ?thesis
      unfolding eq successively_Cons using h ih by (auto simp: adj_ok_def)
  next
    case False
    with 2 have ih: "successively adj_ok (sub_spaces ds)" by blast
    from False have eq: "sub_spaces (d # ds) = d # sub_spaces ds" by simp
    show ?thesis
      unfolding eq successively_Cons using False ih by (auto simp: adj_ok_def)
  qed
qed

lemma strip_tail:
  "dropWhile is_space s = strip s @ rev (takeWhile is_space (rev (dropWhile is_space s)))"
proof -
  let ?d = "dropWhile is_space s"
  have "?d = rev (takeWhile is_space (rev ?d) @ dropWhile is_space (rev ?d))"
    by (simp only: takeWhile_dropWhile_id rev_rev_ident)
  then show ?thesis
    by (simp only: rev_append strip_def)
qed

lemma strip_decomp: "\<exists>ps ss. s = ps @ strip s @ ss"
proof -
  have "s = takeWhile is_space s @ dropWhile is_space s"
    by (simp only: takeWhile_dropWhile_id)
  then have "s = takeWhile is_space s @ strip s
                 @ rev (takeWhile is_space (rev (dropWhile is_space s)))"
    using strip_tail [of s] by simp
  then show ?thesis by blast
qed

lemma set_strip: "set (strip s) \<subseteq> set s"
proof -
  obtain ps ss where "s = ps @ strip s @ ss" using strip_decomp by blast
  then have "set s = set ps \<union> set (strip s) \<union> set ss" by (metis set_append Un_assoc)
  then show ?thesis by blast
qed

lemma succ_strip: "successively P s \<Longrightarrow> successively P (strip s)"
proof -
  assume a: "successively P s"
  obtain ps ss where "s = ps @ strip s @ ss" using strip_decomp by blast
  with a have "successively P (ps @ strip s @ ss)" by simp
  then show ?thesis by (simp add: successively_append_iff)
qed

lemma last_strip: "strip s \<noteq> [] \<Longrightarrow> \<not> is_space (last (strip s))"
proof -
  assume a: "strip s \<noteq> []"
  let ?e = "dropWhile is_space (rev (dropWhile is_space s))"
  from a have ne: "?e \<noteq> []" by (simp add: strip_def)
  then have "\<not> is_space (hd ?e)" by (rule hd_dropWhile)
  moreover have "last (strip s) = hd ?e" using ne by (simp add: strip_def last_rev)
  ultimately show ?thesis by simp
qed

lemma hd_strip: "strip s \<noteq> [] \<Longrightarrow> \<not> is_space (hd (strip s))"
proof -
  assume a: "strip s \<noteq> []"
  let ?d = "dropWhile is_space s"
  note d = strip_tail [of s]
  from a d have ne: "?d \<noteq> []" by (metis append_is_Nil_conv)
  from d a have "hd ?d = hd (strip s)" by (metis hd_append2)
  moreover from ne have "\<not> is_space (hd ?d)" by (rule hd_dropWhile)
  ultimately show ?thesis by simp
qed

lemma sub_spaces_id:
  "\<forall>c\<in>set t. is_space c \<longrightarrow> c = 32 \<Longrightarrow> successively adj_ok t \<Longrightarrow> sub_spaces t = t"
proof (induction t rule: sub_spaces.induct)
  case 1
  then show ?case by simp
next
  case (2 d ds)
  from "2.prems"(2) have tl: "successively adj_ok ds"
    by (auto simp: successively_Cons)
  from "2.prems"(1) have sp: "\<forall>c\<in>set ds. is_space c \<longrightarrow> c = 32" by simp
  show ?case
  proof (cases "is_space d")
    case True
    with "2.prems" have d32: "d = 32" by simp
    from True "2.prems"(2) have "ds = [] \<or> \<not> is_space (hd ds)"
      by (auto simp: successively_Cons adj_ok_def)
    then have dw: "dropWhile is_space ds = ds" by (cases ds) auto
    from "2.IH"(1) [OF True] sp tl dw have "sub_spaces ds = ds" by simp
    with True d32 dw show ?thesis by simp
  next
    case False
    from "2.IH"(2) [OF False] sp tl have "sub_spaces ds = ds" by simp
    with False show ?thesis by simp
  qed
qed

lemma strip_id:
  "t = [] \<or> (\<not> is_space (hd t) \<and> \<not> is_space (last t)) \<Longrightarrow> strip t = t"
proof (cases "t = []")
  case True
  then show ?thesis by (simp add: strip_def)
next
  case False
  assume "t = [] \<or> (\<not> is_space (hd t) \<and> \<not> is_space (last t))"
  with False have h: "\<not> is_space (hd t)" and l: "\<not> is_space (last t)" by auto
  from False h have a: "dropWhile is_space t = t" by (cases t) auto
  from False l have "\<not> is_space (hd (rev t))" by (simp add: hd_rev)
  with False have b: "dropWhile is_space (rev t) = rev t" by (cases "rev t") auto
  show ?thesis by (simp add: strip_def a b)
qed

lemma normal_form_normalize: "normal_form (normalize_text U s)"
proof -
  let ?v = "sub_spaces (sub_other (lower U s))"
  have cs: "\<forall>c\<in>set ?v. is_az09 c \<or> c = 32"
    using set_sub_spaces set_sub_other by blast
  then have c: "\<forall>c\<in>set (strip ?v). is_az09 c \<or> c = 32"
    using set_strip by blast
  have "strip ?v = [] \<or> (\<not> is_space (hd (strip ?v)) \<and> \<not> is_space (last (strip ?v)))"
    using hd_strip last_strip by blast
  then have e: "strip ?v = [] \<or> (hd (strip ?v) \<noteq> 32 \<and> last (strip ?v) \<noteq> 32)"
    using is_space_32 by metis
  have "successively adj_ok (strip ?v)"
    by (rule succ_strip) (rule succ_sub_spaces)
  with c e show ?thesis by (simp add: normal_form_def normalize_text_def)
qed

lemma ascii_lower_id: "is_az09 c \<or> c = 32 \<Longrightarrow> c < 128 \<and> ascii_lower c = c"
  by (auto simp: is_az09_def ascii_lower_def)

lemma normalize_normal_form: "normal_form t \<Longrightarrow> normalize_text U t = t"
proof -
  assume nf: "normal_form t"
  then have cs: "\<forall>c\<in>set t. is_az09 c \<or> c = 32" by (simp add: normal_form_def)
  then have "\<forall>c\<in>set t. c < 128" using ascii_lower_id by blast
  then have "lower U t = map ascii_lower t" by (rule lower_ascii)
  also have "\<dots> = t" using cs ascii_lower_id by (intro map_idI) blast
  finally have l: "lower U t = t" .
  have o: "sub_other t = t"
    unfolding sub_other_def using cs is_space_32 by (intro map_idI) auto
  have "\<forall>c\<in>set t. is_space c \<longrightarrow> c = 32" using cs az09_not_space by blast
  moreover from nf have "successively adj_ok t" by (simp add: normal_form_def)
  ultimately have p: "sub_spaces t = t" by (rule sub_spaces_id)
  from nf have "t = [] \<or> (hd t \<noteq> 32 \<and> last t \<noteq> 32)" by (simp add: normal_form_def)
  moreover have "t \<noteq> [] \<Longrightarrow> is_space (hd t) \<Longrightarrow> hd t = 32"
    using cs az09_not_space hd_in_set by blast
  moreover have "t \<noteq> [] \<Longrightarrow> is_space (last t) \<Longrightarrow> last t = 32"
    using cs az09_not_space last_in_set by blast
  ultimately have "t = [] \<or> (\<not> is_space (hd t) \<and> \<not> is_space (last t))" by blast
  then have q: "strip t = t" by (rule strip_id)
  show ?thesis by (simp add: normalize_text_def l o p q)
qed

lemma normalize_ascii_example:
  "normalize_text U (ustr ''  Codeine + CPM 10mg '') = ustr ''codeine cpm 10mg''"
  by (simp add: normalize_text_def ustr_def lower_ascii sub_other_def strip_def is_space_def
      is_az09_def ascii_lower_def)

lemma normalize_unicode_example:
  "normalize_text keep_nonascii [32, 67, 97, 102, 233, 9, 9, 49, 48, 8364, 32]
     = [99, 97, 102, 32, 49, 48]"
  by (simp add: normalize_text_def lower_def keep_nonascii_def sub_other_def strip_def
      is_space_def is_az09_def ascii_lower_def)

text \<open>
  C6. Normalization is idempotent: normalizing a normalized text gives the same text,
  for every string and every lowercase table of the runtime.
\<close>

theorem normalize_idempotent: "normalize_text U (normalize_text U s) = normalize_text U s"
  by (rule normalize_normal_form) (rule normal_form_normalize)

theorem normalize_idempotent_witness:
  "normalize_text keep_nonascii
     (normalize_text keep_nonascii [32, 67, 97, 102, 233, 9, 9, 49, 48, 8364, 32])
   = [99, 97, 102, 32, 49, 48]"
  using normalize_idempotent [of keep_nonascii "[32, 67, 97, 102, 233, 9, 9, 49, 48, 8364, 32]"]
  by (simp only: normalize_unicode_example)

text \<open>
  C7. For every string, the normalized text has only code points of \<open>[a-z0-9]\<close> and
  the space (32), neither starts nor ends with a space, and has no two spaces in a row.
  The function has no failing branch: it returns a text for the empty string, for a
  string without letters or digits and for a string with code points beyond ASCII.
\<close>

theorem normalize_output_shape:
  "set (normalize_text U s) \<subseteq> {c. is_az09 c} \<union> {32} \<and>
   \<not> prefix [32] (normalize_text U s) \<and> \<not> suffix [32] (normalize_text U s) \<and>
   \<not> sublist [32, 32] (normalize_text U s)"
proof -
  let ?t = "normalize_text U s"
  have nf: "normal_form ?t" by (rule normal_form_normalize)
  then have a: "set ?t \<subseteq> {c. is_az09 c} \<union> {32}" by (auto simp: normal_form_def)
  from nf have e: "?t = [] \<or> (hd ?t \<noteq> 32 \<and> last ?t \<noteq> 32)" by (simp add: normal_form_def)
  have b: "\<not> prefix [32] ?t"
  proof
    assume "prefix [32] ?t"
    then obtain zs where "?t = [32] @ zs" by (auto simp: prefix_def)
    then have "?t \<noteq> [] \<and> hd ?t = 32" by simp
    with e show False by blast
  qed
  have c: "\<not> suffix [32] ?t"
  proof
    assume "suffix [32] ?t"
    then obtain zs where "?t = zs @ [32]" by (auto simp: suffix_def)
    then have "?t \<noteq> [] \<and> last ?t = 32" by simp
    with e show False by blast
  qed
  have d: "\<not> sublist [32, 32] ?t"
  proof
    assume "sublist [32, 32] ?t"
    then obtain ps ss where "?t = ps @ [32, 32] @ ss" by (auto simp: sublist_def)
    moreover from nf have "successively adj_ok ?t" by (simp add: normal_form_def)
    ultimately have "successively adj_ok (ps @ [32, 32] @ ss)" by simp
    then have "successively adj_ok [32, 32]" by (simp add: successively_append_iff)
    then show False by (simp add: adj_ok_def is_space_32)
  qed
  from a b c d show ?thesis by blast
qed

theorem normalize_output_shape_witness:
  "normalize_text keep_nonascii [32, 67, 97, 102, 233, 9, 9, 49, 48, 8364, 32]
     = [99, 97, 102, 32, 49, 48] \<and>
   set [99, 97, 102, 32, 49, 48 :: nat] \<subseteq> {c. is_az09 c} \<union> {32} \<and>
   \<not> prefix [32] [99, 97, 102, 32, 49, 48 :: nat] \<and>
   \<not> suffix [32] [99, 97, 102, 32, 49, 48 :: nat] \<and>
   \<not> sublist [32, 32] [99, 97, 102, 32, 49, 48 :: nat] \<and>
   normalize_text keep_nonascii [] = [] \<and>
   normalize_text keep_nonascii (ustr ''+-+'') = []"
proof -
  have e: "normalize_text keep_nonascii [] = []"
    by (simp add: normalize_text_def lower_def sub_other_def strip_def)
  have p: "normalize_text keep_nonascii (ustr ''+-+'') = []"
    by (simp add: normalize_text_def ustr_def lower_ascii sub_other_def strip_def is_space_def
        is_az09_def ascii_lower_def)
  show ?thesis
    using normalize_output_shape
      [of keep_nonascii "[32, 67, 97, 102, 233, 9, 9, 49, 48, 8364, 32]"] e p
    by (simp only: normalize_unicode_example simp_thms)
qed

section \<open>Properties of the matcher\<close>

text \<open>
  The substring test is the one of the list library: \<open>a\<close> is in \<open>b\<close> when \<open>b\<close> is
  some text, then \<open>a\<close>, then some text.
\<close>

lemma is_substring_sublist: "is_substring a b \<longleftrightarrow> sublist a b"
  by (induction b) (simp_all add: sublist_Cons_right)

lemma scan_rows_eq:
  "scan_rows U pr txt found rows = found \<union> generic ` {r \<in> set rows. row_flagged U pr txt r}"
proof (induction rows arbitrary: found)
  case Nil
  then show ?case by simp
next
  case (Cons r rs)
  show ?case
  proof (cases "row_flagged U pr txt r")
    case True
    then have "scan_rows U pr txt found (r # rs) = scan_rows U pr txt (insert (generic r) found) rs"
      by (auto simp: row_flagged_def Let_def)
    also have "\<dots> = insert (generic r) found \<union> generic ` {x \<in> set rs. row_flagged U pr txt x}"
      by (rule Cons.IH)
    finally show ?thesis using True by auto
  next
    case False
    then have "scan_rows U pr txt found (r # rs) = scan_rows U pr txt found rs"
      by (auto simp: row_flagged_def Let_def)
    also have "\<dots> = found \<union> generic ` {x \<in> set rs. row_flagged U pr txt x}"
      by (rule Cons.IH)
    finally show ?thesis using False by auto
  qed
qed

lemma scan_keywords_eq:
  "scan_keywords txt found kws = found \<union> capitalize ` {kw \<in> set kws. is_substring kw txt}"
  by (induction kws arbitrary: found) auto

lemma capitalize_nimesulide: "capitalize (ustr ''nimesulide'') = ustr ''Nimesulide''"
  by (simp add: ustr_def ascii_upper_def ascii_lower_def)

lemma keywords_eq:
  "capitalize ` {kw \<in> set BANNED_KEYWORDS. is_substring kw txt}
     = (if is_substring (ustr ''nimesulide'') txt then {ustr ''Nimesulide''} else {})"
proof -
  have "{kw \<in> set BANNED_KEYWORDS. is_substring kw txt}
          = (if is_substring (ustr ''nimesulide'') txt then {ustr ''nimesulide''} else {})"
    by (auto simp: BANNED_KEYWORDS_def)
  then show ?thesis
    by (simp only: capitalize_nimesulide image_insert image_empty if_distrib [of "(`) capitalize"]
        split: if_splits) 
qed

lemma found_set_eq:
  "scan_keywords (normalize_text U (join [10] ocr_texts))
     (scan_rows U pr (normalize_text U (join [10] ocr_texts)) {} dataset_rows) BANNED_KEYWORDS
   = found_set U pr ocr_texts dataset_rows"
  unfolding scan_keywords_eq scan_rows_eq keywords_eq found_set_def by simp

lemma find_banned_eq:
  "find_banned_drugs_in_invoice U pr ocr_texts dataset_rows
     = sorted_list_of_set (found_set U pr ocr_texts dataset_rows)"
  unfolding find_banned_drugs_in_invoice_def Let_def found_set_eq by (rule refl)

lemma finite_found_set: "finite (found_set U pr ocr_texts dataset_rows)"
  by (simp add: found_set_def)

lemma set_find_banned:
  "set (find_banned_drugs_in_invoice U pr ocr_texts dataset_rows)
     = found_set U pr ocr_texts dataset_rows"
  by (simp add: find_banned_eq finite_found_set)


lemmas normalize_eval =
  normalize_text_def ustr_def lower_ascii sub_other_def strip_def is_space_def is_az09_def
  ascii_lower_def

lemma normalize_Nimesulide: "normalize_text U (ustr ''Nimesulide'') = ustr ''nimesulide''"
  by (simp add: normalize_eval)

lemma mem_found_set:
  "x \<in> found_set U pr ocr_texts dataset_rows \<longleftrightarrow>
     (\<exists>r\<in>set dataset_rows.
        row_flagged U pr (normalize_text U (join [10] ocr_texts)) r \<and> generic r = x) \<or>
     (is_substring (ustr ''nimesulide'') (normalize_text U (join [10] ocr_texts)) \<and>
      x = ustr ''Nimesulide'')"
  by (auto simp: found_set_def)

text \<open>
  C1. A banned row whose normalized generic name is not empty and occurs in the
  normalized invoice text as a contiguous substring has its generic name, as the row
  holds it, in the result of the matcher, whatever the similarity function answers.
\<close>

theorem exact_match_flagged:
  assumes "r \<in> set dataset_rows" and "is_banned r"
    and "normalize_text U (generic r) \<noteq> []"
    and "is_substring (normalize_text U (generic r)) (normalize_text U (join [10] ocr_texts))"
  shows "generic r \<in> set (find_banned_drugs_in_invoice U pr ocr_texts dataset_rows)"
proof -
  from assms(2-4) have "row_flagged U pr (normalize_text U (join [10] ocr_texts)) r"
    by (simp add: row_flagged_def)
  with assms(1) have "generic r \<in> found_set U pr ocr_texts dataset_rows"
    unfolding mem_found_set by blast
  then show ?thesis by (simp only: set_find_banned)
qed

theorem exact_match_flagged_witness:
  "ustr ''Cefixime'' \<in> set (find_banned_drugs_in_invoice keep_nonascii (const_score 0)
     [ustr ''Item: CEFIXIME-200mg tablet'']
     [\<lparr>brand = ustr ''Cefixime 200'', generic = ustr ''Cefixime'', is_banned = True,
       batch = ustr ''B1''\<rparr>])"
  using exact_match_flagged [of
      "\<lparr>brand = ustr ''Cefixime 200'', generic = ustr ''Cefixime'', is_banned = True,
        batch = ustr ''B1''\<rparr>"
      "[\<lparr>brand = ustr ''Cefixime 200'', generic = ustr ''Cefixime'', is_banned = True,
        batch = ustr ''B1''\<rparr>]"
      keep_nonascii "[ustr ''Item: CEFIXIME-200mg tablet'']" "const_score 0"]
  by (simp add: normalize_eval)

text \<open>
  C2. For a banned row whose normalized generic name is not empty and does not occur in
  the normalized invoice text: when the similarity of the two is exactly 85 the generic
  name is in the result, and when it is 84 the generic name is not in the result.
\<close>

theorem fuzzy_threshold_inclusive:
  assumes "r \<in> set dataset_rows" and "is_banned r"
    and "normalize_text U (generic r) \<noteq> []"
    and "\<not> is_substring (normalize_text U (generic r)) (normalize_text U (join [10] ocr_texts))"
  shows "(pr (normalize_text U (generic r)) (normalize_text U (join [10] ocr_texts)) = 85 \<longrightarrow>
            generic r \<in> set (find_banned_drugs_in_invoice U pr ocr_texts dataset_rows)) \<and>
         (pr (normalize_text U (generic r)) (normalize_text U (join [10] ocr_texts)) = 84 \<longrightarrow>
            generic r \<notin> set (find_banned_drugs_in_invoice U pr ocr_texts dataset_rows))"
proof (intro conjI impI)
  let ?txt = "normalize_text U (join [10] ocr_texts)"
  assume "pr (normalize_text U (generic r)) ?txt = 85"
  with assms(2,3) have "row_flagged U pr ?txt r"
    by (simp add: row_flagged_def FUZZY_THRESHOLD_def)
  with assms(1) have "generic r \<in> found_set U pr ocr_texts dataset_rows"
    unfolding mem_found_set by blast
  then show "generic r \<in> set (find_banned_drugs_in_invoice U pr ocr_texts dataset_rows)"
    by (simp only: set_find_banned)
next
  let ?txt = "normalize_text U (join [10] ocr_texts)"
  assume s: "pr (normalize_text U (generic r)) ?txt = 84"
  show "generic r \<notin> set (find_banned_drugs_in_invoice U pr ocr_texts dataset_rows)"
  proof
    assume "generic r \<in> set (find_banned_drugs_in_invoice U pr ocr_texts dataset_rows)"
    then have "generic r \<in> found_set U pr ocr_texts dataset_rows"
      by (simp only: set_find_banned)
    then consider
        (row) r' where "r' \<in> set dataset_rows" "row_flagged U pr ?txt r'" "generic r' = generic r"
      | (kw) "is_substring (ustr ''nimesulide'') ?txt" "generic r = ustr ''Nimesulide''"
      unfolding mem_found_set by blast
    then show False
    proof cases
      case row
      from row(2,3) have
        "is_substring (normalize_text U (generic r)) ?txt \<or>
         pr (normalize_text U (generic r)) ?txt \<ge> FUZZY_THRESHOLD"
        by (simp add: row_flagged_def)
      with assms(4) s show False by (simp add: FUZZY_THRESHOLD_def)
    next
      case kw
      from kw(2) have "normalize_text U (generic r) = ustr ''nimesulide''"
        by (simp only: normalize_Nimesulide)
      with kw(1) assms(4) show False by simp
    qed
  qed
qed

theorem fuzzy_threshold_inclusive_witness:
  "ustr ''Nimesulide DT'' \<in> set (find_banned_drugs_in_invoice keep_nonascii (const_score 85)
     [ustr ''nimesul1de dt 100mg'']
     [\<lparr>brand = ustr ''Nimesulide DT'', generic = ustr ''Nimesulide DT'', is_banned = True,
       batch = ustr ''B2''\<rparr>]) \<and>
   ustr ''Nimesulide DT'' \<notin> set (find_banned_drugs_in_invoice keep_nonascii (const_score 84)
     [ustr ''nimesul1de dt 100mg'']
     [\<lparr>brand = ustr ''Nimesulide DT'', generic = ustr ''Nimesulide DT'', is_banned = True,
       batch = ustr ''B2''\<rparr>])"
  using
    fuzzy_threshold_inclusive [of
      "\<lparr>brand = ustr ''Nimesulide DT'', generic = ustr ''Nimesulide DT'', is_banned = True,
        batch = ustr ''B2''\<rparr>"
      "[\<lparr>brand = ustr ''Nimesulide DT'', generic = ustr ''Nimesulide DT'', is_banned = True,
        batch = ustr ''B2''\<rparr>]"
      keep_nonascii "[ustr ''nimesul1de dt 100mg'']" "const_score 85"]
    fuzzy_threshold_inclusive [of
      "\<lparr>brand = ustr ''Nimesulide DT'', generic = ustr ''Nimesulide DT'', is_banned = True,
        batch = ustr ''B2''\<rparr>"
      "[\<lparr>brand = ustr ''Nimesulide DT'', generic = ustr ''Nimesulide DT'', is_banned = True,
        batch = ustr ''B2''\<rparr>]"
      keep_nonascii "[ustr ''nimesul1de dt 100mg'']" "const_score 84"]
  by (simp add: normalize_eval const_score_def)

text \<open>
  C3. A row that is not banned contributes nothing: the matcher returns the same list
  with the row in the dataset as without it, whatever the invoice text and the
  similarity function are.
\<close>

theorem non_banned_row_inert:
  assumes "\<not> is_banned r"
  shows "find_banned_drugs_in_invoice U pr ocr_texts (xs @ r # ys)
           = find_banned_drugs_in_invoice U pr ocr_texts (xs @ ys)"
proof -
  from assms have "\<not> row_flagged U pr (normalize_text U (join [10] ocr_texts)) r"
    by (simp add: row_flagged_def)
  then have "found_set U pr ocr_texts (xs @ r # ys) = found_set U pr ocr_texts (xs @ ys)"
    by (auto simp: found_set_def)
  then show ?thesis by (simp only: find_banned_eq)
qed

lemma find_banned_no_hit:
  "\<not> is_substring (ustr ''nimesulide'') (normalize_text U (join [10] ocr_texts)) \<Longrightarrow>
   find_banned_drugs_in_invoice U pr ocr_texts [] = []"
  by (simp add: find_banned_eq found_set_def)

theorem non_banned_row_inert_witness:
  "find_banned_drugs_in_invoice keep_nonascii (const_score 100) [ustr ''Dolo 650 Paracetamol 650mg'']
     [\<lparr>brand = ustr ''Dolo 650'', generic = ustr ''Paracetamol'', is_banned = False,
       batch = ustr ''B3''\<rparr>] = []"
proof -
  have "find_banned_drugs_in_invoice keep_nonascii (const_score 100)
          [ustr ''Dolo 650 Paracetamol 650mg''] [] = []"
    by (rule find_banned_no_hit) (simp add: normalize_eval)
  then show ?thesis
    using non_banned_row_inert [of
      "\<lparr>brand = ustr ''Dolo 650'', generic = ustr ''Paracetamol'', is_banned = False,
        batch = ustr ''B3''\<rparr>"
      keep_nonascii "const_score 100" "[ustr ''Dolo 650 Paracetamol 650mg'']" "[]" "[]"]
    by simp
qed

text \<open>
  C4. An invoice whose normalized text contains \<open>nimesulide\<close> has the string
  \<open>Nimesulide\<close> in the result of the matcher whatever the dataset rows are, and with
  no dataset row at all the result is exactly the list with that one string: the keyword
  contributes its capitalized form independently of the dataset.
\<close>

theorem safety_net_independent:
  assumes "is_substring (ustr ''nimesulide'') (normalize_text U (join [10] ocr_texts))"
  shows "find_banned_drugs_in_invoice U pr ocr_texts [] = [ustr ''Nimesulide''] \<and>
         ustr ''Nimesulide'' \<in> set (find_banned_drugs_in_invoice U pr ocr_texts dataset_rows)"
proof
  from assms show "find_banned_drugs_in_invoice U pr ocr_texts [] = [ustr ''Nimesulide'']"
    by (simp add: find_banned_eq found_set_def)
next
  from assms have "ustr ''Nimesulide'' \<in> found_set U pr ocr_texts dataset_rows"
    unfolding mem_found_set by blast
  then show "ustr ''Nimesulide'' \<in> set (find_banned_drugs_in_invoice U pr ocr_texts dataset_rows)"
    by (simp only: set_find_banned)
qed

theorem safety_net_independent_witness:
  "find_banned_drugs_in_invoice keep_nonascii (const_score 0)
     [ustr ''Tab. NIMESULIDE-100mg'', ustr ''Qty 10''] [] = [ustr ''Nimesulide''] \<and>
   ustr ''Nimesulide'' \<in> set (find_banned_drugs_in_invoice keep_nonascii (const_score 0)
     [ustr ''Tab. NIMESULIDE-100mg'', ustr ''Qty 10'']
     [\<lparr>brand = ustr ''Analgin'', generic = ustr ''Metamizole'', is_banned = True,
       batch = ustr ''B4''\<rparr>,
      \<lparr>brand = ustr ''Dolo 650'', generic = ustr ''Paracetamol'', is_banned = False,
       batch = ustr ''B5''\<rparr>])"
  using safety_net_independent [where U = keep_nonascii
      and ocr_texts = "[ustr ''Tab. NIMESULIDE-100mg'', ustr ''Qty 10'']"
      and pr = "const_score 0"
      and dataset_rows =
        "[\<lparr>brand = ustr ''Analgin'', generic = ustr ''Metamizole'', is_banned = True,
           batch = ustr ''B4''\<rparr>,
          \<lparr>brand = ustr ''Dolo 650'', generic = ustr ''Paracetamol'', is_banned = False,
           batch = ustr ''B5''\<rparr>]"]
  by (simp add: normalize_eval)

text \<open>
  C5. The list that the matcher returns is sorted in the lexicographic order of strings
  and has no string twice.
\<close>

theorem result_sorted_distinct:
  "sorted (find_banned_drugs_in_invoice U pr ocr_texts dataset_rows) \<and>
   distinct (find_banned_drugs_in_invoice U pr ocr_texts dataset_rows)"
  by (simp add: find_banned_eq)

section \<open>Properties of the dataset loader\<close>

lemma ustr_None_lower: "lower U (ustr ''None'') \<noteq> ustr ''true''"
  by (simp add: ustr_def lower_ascii ascii_lower_def)

lemma lower_empty: "lower U [] = []"
  by (simp add: lower_def)

lemma lower_true: "lower U (ustr ''true'') = ustr ''true''"
  by (simp add: ustr_def lower_ascii ascii_lower_def)

lemma shape_row_is_banned:
  "shape_row U r = Inr row \<Longrightarrow> is_banned row = parse_is_banned U r"
  by (auto simp: shape_row_def parse_is_banned_def Let_def split: sum.splits)

lemma parse_is_banned_iff:
  "parse_is_banned U r \<longleftrightarrow>
     (\<exists>v. r (ustr ''is_banned'') = Some (Text v) \<and> caseless_eq U v (ustr ''true''))"
proof (cases "r (ustr ''is_banned'')")
  case None
  then show ?thesis
    by (simp add: parse_is_banned_def dict_get_def py_str_def lower_empty ustr_def)
next
  case (Some c)
  show ?thesis
  proof (cases c)
    case (Text v)
    with Some show ?thesis
      by (simp add: parse_is_banned_def dict_get_def py_str_def caseless_eq_def lower_true)
  next
    case NoneVal
    with Some show ?thesis
      by (simp add: parse_is_banned_def dict_get_def py_str_def ustr_None_lower)
  qed
qed

lemma ascii_lower_eq_iff:
  "ascii_lower x = 116 \<longleftrightarrow> x = 116 \<or> x = 84"
  "ascii_lower x = 114 \<longleftrightarrow> x = 114 \<or> x = 82"
  "ascii_lower x = 117 \<longleftrightarrow> x = 117 \<or> x = 85"
  "ascii_lower x = 101 \<longleftrightarrow> x = 101 \<or> x = 69"
  by (auto simp: ascii_lower_def)

lemma caseless_true_ascii:
  assumes "\<forall>c\<in>set v. c < 128"
  shows "caseless_eq U v (ustr ''true'') \<longleftrightarrow>
     (\<exists>a b c d. v = [a, b, c, d] \<and> (a = 116 \<or> a = 84) \<and> (b = 114 \<or> b = 82) \<and>
        (c = 117 \<or> c = 85) \<and> (d = 101 \<or> d = 69))"
proof -
  have l: "lower U v = map ascii_lower v" using assms by (rule lower_ascii)
  have t: "ustr ''true'' = [116, 114, 117, 101]" by (simp add: ustr_def)
  have lt: "lower U [116, 114, 117, 101] = [116, 114, 117, 101]"
    using lower_true [of U] unfolding t .
  have "caseless_eq U v (ustr ''true'') \<longleftrightarrow> map ascii_lower v = [116, 114, 117, 101]"
    unfolding caseless_eq_def t lt l ..
  also have "\<dots> \<longleftrightarrow>
     (\<exists>a b c d. v = [a, b, c, d] \<and> ascii_lower a = 116 \<and> ascii_lower b = 114 \<and>
        ascii_lower c = 117 \<and> ascii_lower d = 101)"
    by (auto simp: map_eq_Cons_conv)
  finally show ?thesis unfolding ascii_lower_eq_iff .
qed

lemmas shape_eval =
  shape_row_def dict_get_def cell_strip_def py_str_def strip_def is_space_def ustr_def
  lower_ascii ascii_lower_def

lemma shape_demo_record: "shape_row U demo_record = Inr demo_row"
  by (simp add: demo_record_def demo_row_def shape_eval)

text \<open>
  C8. In the row that a record is shaped into, \<open>is_banned\<close> is true exactly when the
  record has a text under \<open>is_banned\<close> which, compared without regard to case, equals
  \<open>true\<close>. A record without the column, a \<open>None\<close> value and every other text give
  false.
\<close>

theorem is_banned_only_true:
  assumes "shape_row U r = Inr row"
  shows "is_banned row \<longleftrightarrow>
     (\<exists>v. r (ustr ''is_banned'') = Some (Text v) \<and> caseless_eq U v (ustr ''true''))"
  using shape_row_is_banned [OF assms] parse_is_banned_iff by simp

theorem is_banned_only_true_witness:
  "shape_row keep_nonascii demo_record = Inr demo_row \<and>
   (\<exists>v. demo_record (ustr ''is_banned'') = Some (Text v) \<and>
        caseless_eq keep_nonascii v (ustr ''true''))"
proof -
  have e: "shape_row keep_nonascii demo_record = Inr demo_row" by (rule shape_demo_record)
  have "is_banned demo_row" by (simp add: demo_row_def)
  with is_banned_only_true [OF e] e show ?thesis by simp
qed

text \<open>
  The values that the claim lists, and the spellings of \<open>true\<close>.
\<close>

lemma parse_is_banned_examples:
  "\<not> parse_is_banned U Map.empty"
  "\<not> parse_is_banned U [ustr ''is_banned'' \<mapsto> NoneVal]"
  "\<not> parse_is_banned U [ustr ''is_banned'' \<mapsto> Text []]"
  "\<not> parse_is_banned U [ustr ''is_banned'' \<mapsto> Text (ustr ''false'')]"
  "\<not> parse_is_banned U [ustr ''is_banned'' \<mapsto> Text (ustr ''1'')]"
  "\<not> parse_is_banned U [ustr ''is_banned'' \<mapsto> Text (ustr ''yes'')]"
  "\<not> parse_is_banned U [ustr ''is_banned'' \<mapsto> Text (ustr '' true'')]"
  "parse_is_banned U [ustr ''is_banned'' \<mapsto> Text (ustr ''true'')]"
  "parse_is_banned U [ustr ''is_banned'' \<mapsto> Text (ustr ''TRUE'')]"
  "parse_is_banned U [ustr ''is_banned'' \<mapsto> Text (ustr ''True'')]"
  by (simp_all add: parse_is_banned_def dict_get_def py_str_def ustr_def lower_ascii
      ascii_lower_def lower_empty)

text \<open>
  C9. Shaping is claimed never to raise, a missing value becoming the empty string. On the
  record of a line shorter than the header the columns left over are present with the
  value \<open>None\<close>, \<open>r.get("generic", "")\<close> returns that \<open>None\<close>, and
  \<open>.strip()\<close> raises \<open>AttributeError\<close>: the row is not shaped.
\<close>

theorem shape_row_short_line_raises:
  "shape_row keep_nonascii short_record = Inl AttributeError"
  by (simp add: short_record_def shape_eval)

text \<open>
  What holds of the claim: when none of the three text columns is \<open>None\<close>, shaping
  succeeds, with the fields stripped and the empty string for a column that the record
  does not have.
\<close>

lemma shape_row_without_None:
  assumes "r (ustr ''brand'') \<noteq> Some NoneVal" and "r (ustr ''generic'') \<noteq> Some NoneVal"
    and "r (ustr ''batch'') \<noteq> Some NoneVal"
  shows "shape_row U r =
     Inr \<lparr>brand = strip (field_text r (ustr ''brand'')),
          generic = strip (field_text r (ustr ''generic'')),
          is_banned = parse_is_banned U r,
          batch = strip (field_text r (ustr ''batch''))\<rparr>"
proof -
  have c: "\<And>k. r k \<noteq> Some NoneVal \<Longrightarrow>
             cell_strip (dict_get r k (Text [])) = Inr (strip (field_text r k))"
    by (auto simp: cell_strip_def dict_get_def field_text_def split: option.splits cell.splits)
  show ?thesis
    by (simp add: shape_row_def c [OF assms(1)] c [OF assms(2)] c [OF assms(3)]
        parse_is_banned_def Let_def)
qed

text \<open>
  C10, as stated: a source that is missing or unreadable contributes no rows and raises no
  error. A file that exists and cannot be read is opened by the loader, and the error of
  \<open>open\<close> leaves \<open>load_dataset_csv\<close>: the rows of the readable source are not
  returned.
\<close>

theorem load_unreadable_counterexample:
  "load_dataset_csv keep_nonascii demo_fs [Some (ustr ''train.csv''), Some (ustr ''locked.csv'')]
     = Inl OSError"
  by (simp add: load_dataset_csv_def demo_fs_def path_exists_def ustr_def
      shape_demo_record [unfolded ustr_def])

text \<open>
  C10, as the code has it: a source whose path is \<open>None\<close>, is the empty string or does
  not exist is skipped, and the loader returns what it returns for the other sources.
\<close>

lemma load_loop_skip:
  "skipped fs p \<Longrightarrow> load_loop U fs rows (p # qs) = load_loop U fs rows qs"
  by (cases p) (auto simp: skipped_def)

lemma load_loop_append_skip:
  "skipped fs p \<Longrightarrow> load_loop U fs rows (ps @ p # qs) = load_loop U fs rows (ps @ qs)"
proof (induction ps arbitrary: rows)
  case Nil
  then show ?case by (simp add: load_loop_skip)
next
  case (Cons a ps)
  show ?case
  proof (cases a)
    case None
    with Cons show ?thesis by simp
  next
    case (Some path)
    with Cons show ?thesis
      by (simp split: option.splits source.splits sum.splits)
  qed
qed

theorem load_skips_missing:
  assumes "skipped fs p"
  shows "load_dataset_csv U fs (ps @ p # qs) = load_dataset_csv U fs (ps @ qs)"
  using assms by (simp add: load_dataset_csv_def load_loop_append_skip)

theorem load_skips_missing_witness:
  "load_dataset_csv keep_nonascii demo_fs [Some (ustr ''train.csv''), Some (ustr ''test.csv'')]
     = Inr [demo_row] \<and>
   load_dataset_csv keep_nonascii demo_fs [None, Some []] = Inr []"
proof -
  have s: "skipped demo_fs (Some (ustr ''test.csv''))"
    by (simp add: skipped_def demo_fs_def path_exists_def ustr_def)
  have n: "skipped demo_fs None" by (simp add: skipped_def)
  have e: "skipped demo_fs (Some [])" by (simp add: skipped_def)
  have t: "load_dataset_csv keep_nonascii demo_fs [Some (ustr ''train.csv'')] = Inr [demo_row]"
    by (simp add: load_dataset_csv_def demo_fs_def path_exists_def ustr_def
        shape_demo_record [unfolded ustr_def])
  have z: "load_dataset_csv keep_nonascii demo_fs [] = Inr []"
    by (simp add: load_dataset_csv_def)
  from load_skips_missing [OF s, of keep_nonascii "[Some (ustr ''train.csv'')]" "[]"] t
  have a: "load_dataset_csv keep_nonascii demo_fs
             [Some (ustr ''train.csv''), Some (ustr ''test.csv'')] = Inr [demo_row]"
    by simp
  from load_skips_missing [OF n, of keep_nonascii "[]" "[Some []]"]
    load_skips_missing [OF e, of keep_nonascii "[]" "[]"] z
  have b: "load_dataset_csv keep_nonascii demo_fs [None, Some []] = Inr []"
    by simp
  from a b show ?thesis by blast
qed

end
